theory Spec2Isabelle
  imports Complex_Main "HOL-Library.Log_Nat"
begin

section \<open>Strings\<close>

text \<open>
  A Python \<open>str\<close> is a sequence of Unicode code points, and \<open>len\<close>, slicing, \<open>strip\<close>,
  \<open>replace\<close>, \<open>split\<close>, \<open>in\<close> and \<open>re.sub\<close> all count code points. A string is therefore a
  list of code points, each a natural number; \<open>py\<close> turns a literal into such a list.
\<close>

type_synonym pychar = nat
type_synonym pystr = "pychar list"

definition py :: "string \<Rightarrow> pystr" where
  "py s = map of_char s"

text \<open>\<open>s[a:b]\<close> for \<open>0 \<le> a \<le> b\<close>: the slice stops silently at the end of the string.\<close>

definition slice :: "pystr \<Rightarrow> nat \<Rightarrow> nat \<Rightarrow> pystr" where
  "slice s a b = take (b - a) (drop a s)"

section \<open>The payload decoder\<close>

subsection \<open>Hexadecimal text\<close>

text \<open>
  The character class \<open>[^0-9a-fA-F]\<close> of \<open>re.sub\<close>: a character is kept when it is one
  of the ASCII digits (48 to 57), \<open>a\<close> to \<open>f\<close> (97 to 102) or \<open>A\<close> to \<open>F\<close> (65 to 70).
\<close>

definition is_hex_char :: "pychar \<Rightarrow> bool" where
  "is_hex_char c \<longleftrightarrow> (48 \<le> c \<and> c \<le> 57) \<or> (97 \<le> c \<and> c \<le> 102) \<or> (65 \<le> c \<and> c \<le> 70)"

definition re_sub_non_hex :: "pystr \<Rightarrow> pystr" where
  "re_sub_non_hex hex_str = filter is_hex_char hex_str"

definition hex_digit :: "pychar \<Rightarrow> int option" where
  "hex_digit c =
     (if 48 \<le> c \<and> c \<le> 57 then Some (int c - 48)
      else if 97 \<le> c \<and> c \<le> 102 then Some (int c - 87)
      else if 65 \<le> c \<and> c \<le> 70 then Some (int c - 55)
      else None)"

text \<open>
  \<open>int(x, 16)\<close>: the digits are accumulated from the left, most significant first. The
  empty string and a string with a character that is no hexadecimal digit raise
  \<open>ValueError\<close>, which is the value \<open>None\<close> here. (Python's \<open>int\<close> also accepts a sign, a
  \<open>0x\<close> prefix, underscores, surrounding whitespace and the decimal digits of other
  scripts; the decoder only ever passes slices of the normalized string, which holds the
  ASCII hexadecimal digits alone.)
\<close>

fun int16_digits :: "int \<Rightarrow> pystr \<Rightarrow> int option" where
  "int16_digits acc [] = Some acc"
| "int16_digits acc (c # cs) =
     (case hex_digit c of
        None \<Rightarrow> None
      | Some d \<Rightarrow> int16_digits (16 * acc + d) cs)"

definition int16 :: "pystr \<Rightarrow> int option" where
  "int16 x = (if x = [] then None else int16_digits 0 x)"

subsection \<open>Floating point\<close>

text \<open>
  A Python \<open>float\<close> is an IEEE 754 binary64 number: 53 significant bits, and every
  operation returns the exact result rounded to the nearest such number, ties to the even
  significand. A float is represented by the rational number it denotes. Only the normal
  range is modelled (no overflow, no subnormal numbers): the voltages computed here lie
  between 1 and 5.
\<close>

definition round_half_even :: "rat \<Rightarrow> int" where
  "round_half_even q =
     (let f = \<lfloor>q\<rfloor>; r = q - of_int f
      in if r < 1 / 2 then f
         else if 1 / 2 < r then f + 1
         else if even f then f else f + 1)"

text \<open>The exponent \<open>e\<close> of a positive number \<open>x\<close>: \<open>2 ^ e \<le> x < 2 ^ (e + 1)\<close>.\<close>

definition binade :: "rat \<Rightarrow> int" where
  "binade x =
     (let (a, b) = quotient_of x; e0 = bitlen a - bitlen b
      in if 2 powi e0 \<le> x then e0 else e0 - 1)"

definition round_double :: "rat \<Rightarrow> rat" where
  "round_double x =
     (if x = 0 then 0
      else let ulp = 2 powi (binade \<bar>x\<bar> - 52)
           in of_int (round_half_even (x / ulp)) * ulp)"

definition float_mul :: "rat \<Rightarrow> rat \<Rightarrow> rat" where
  "float_mul a b = round_double (a * b)"

definition float_add :: "rat \<Rightarrow> rat \<Rightarrow> rat" where
  "float_add a b = round_double (a + b)"

text \<open>The literal \<open>0.0125\<close> denotes the float nearest to 1/80.\<close>

definition lit_0_0125 :: rat where
  "lit_0_0125 = round_double (125 / 10000)"

text \<open>\<open>(volt_val * 0.0125) + 1.0\<close>; the integer converts to a float exactly.\<close>

definition voltage_of :: "int \<Rightarrow> rat" where
  "voltage_of volt_val = float_add (float_mul (of_int volt_val) lit_0_0125) 1"

subsection \<open>Rows and samples\<close>

text \<open>
  A row of the table after the timestamps have been parsed: \<open>Timestamp\<close> is an instant,
  the signed 64-bit count of nanoseconds since the epoch that pandas stores. The
  conversion to the zone Asia/Tokyo changes how an instant is displayed, not the count.
\<close>

record row =
  Data :: pystr
  DeviceID :: pystr
  Timestamp :: int

text \<open>One decoded record; \<open>Sample_DeviceID\<close> is the key \<open>'DeviceID'\<close> of the dictionary.\<close>

record sample =
  Timestamp_JST :: int
  Distance_mm :: int
  Voltage_V :: rat
  Battery_Pct :: int
  Sample_DeviceID :: pystr

text \<open>\<open>pd.Timedelta(minutes=m)\<close> in nanoseconds.\<close>

definition Timedelta_minutes :: "int \<Rightarrow> int" where
  "Timedelta_minutes m = m * 60000000000"

text \<open>
  The counts that are instants run from \<open>Timestamp.min\<close> to \<open>Timestamp.max\<close>; the one
  64-bit value left over, the smallest, is \<open>NaT\<close>, "not a time". The function \<open>main\<close> drops
  the rows whose timestamp is \<open>NaT\<close> before it decodes, so the rows it passes on hold an
  instant.
\<close>

definition NaT :: int where
  "NaT = - 9223372036854775808"

definition Timestamp_min :: int where
  "Timestamp_min = - 9223372036854775807"

definition Timestamp_max :: int where
  "Timestamp_max = 9223372036854775807"

text \<open>
  \<open>current_time - pd.Timedelta(...)\<close>: \<open>NaT\<close> less anything is \<open>NaT\<close>. Otherwise the two
  counts are subtracted; a difference that does not fit 64 bits raises
  \<open>OutOfBoundsDatetime\<close>, which is \<open>None\<close> here, and a difference that is the count of \<open>NaT\<close>
  is \<open>NaT\<close>.
\<close>

definition timestamp_sub :: "int \<Rightarrow> int \<Rightarrow> int option" where
  "timestamp_sub current_time delta =
     (if current_time = NaT then Some NaT
      else let new_value = current_time - delta
           in if - 9223372036854775808 \<le> new_value \<and> new_value \<le> 9223372036854775807
              then Some new_value
              else None)"

subsection \<open>decode_payload\<close>

text \<open>
  The body of the loop \<open>for i in range(5)\<close>, run over the indices that are left, with
  the list \<open>extracted_data\<close> built so far. An exception in \<open>int\<close> or in the subtraction
  of the time leaves the loop with \<open>None\<close>.
\<close>

fun extract_loop ::
  "pystr \<Rightarrow> row \<Rightarrow> rat \<Rightarrow> int \<Rightarrow> nat list \<Rightarrow> sample list \<Rightarrow> sample list option" where
  "extract_loop s r voltage batt_pct [] extracted_data = Some extracted_data"
| "extract_loop s r voltage batt_pct (i # is) extracted_data =
     (let start_idx = 4 + i * 4;
          end_idx = start_idx + 4
      in case int16 (slice s start_idx end_idx) of
           None \<Rightarrow> None
         | Some distance_mm \<Rightarrow>
             (case timestamp_sub (Timestamp r) (Timedelta_minutes (int i * 2)) of
                None \<Rightarrow> None
              | Some record_time \<Rightarrow>
                  extract_loop s r voltage batt_pct is
                    (extracted_data @
                     [\<lparr>Timestamp_JST = record_time,
                       Distance_mm = distance_mm,
                       Voltage_V = voltage,
                       Battery_Pct = batt_pct,
                       Sample_DeviceID = DeviceID r\<rparr>])))"

text \<open>
  \<open>decode_payload\<close>: every exception raised inside the \<open>try\<close> block is caught and makes
  the function return the empty list.
\<close>

definition decode_payload :: "row \<Rightarrow> sample list" where
  "decode_payload r =
     (let s = re_sub_non_hex (Data r)
      in if length s < 24 then []
         else case int16 (slice s 0 2) of
                None \<Rightarrow> []
              | Some volt_val \<Rightarrow>
                  (let voltage = voltage_of volt_val
                   in case int16 (slice s 2 4) of
                        None \<Rightarrow> []
                      | Some batt_pct \<Rightarrow>
                          (case extract_loop s r voltage batt_pct [0..<5] [] of
                             None \<Rightarrow> []
                           | Some extracted_data \<Rightarrow> extracted_data)))"

subsection \<open>The layout of the payload, in the words of the specification\<close>

text \<open>
  The value of one hexadecimal character, of the byte written at characters \<open>k\<close> and
  \<open>k + 1\<close>, and of the big-endian unsigned 16-bit integer written at characters \<open>k\<close> to
  \<open>k + 3\<close> (high byte first). These follow the description of the format, not the code,
  and are compared with what \<open>decode_payload\<close> computes.
\<close>

definition nibble :: "pychar \<Rightarrow> int" where
  "nibble c = (if c \<le> 57 then int c - 48 else if c \<le> 70 then int c - 55 else int c - 87)"

definition byte_at :: "pystr \<Rightarrow> nat \<Rightarrow> int" where
  "byte_at s k = 16 * nibble (s ! k) + nibble (s ! (k + 1))"

definition be16_at :: "pystr \<Rightarrow> nat \<Rightarrow> int" where
  "be16_at s k = 256 * byte_at s k + byte_at s (k + 2)"

text \<open>
  Sample \<open>i\<close> of a row as the specification describes it: the row's instant less \<open>i\<close>
  times two minutes, the distance written at characters \<open>4 + 4 i\<close> to \<open>7 + 4 i\<close> of the
  normalized payload \<open>s\<close>, and the row's voltage, battery percentage and device.
\<close>

definition mk_sample :: "pystr \<Rightarrow> row \<Rightarrow> rat \<Rightarrow> int \<Rightarrow> nat \<Rightarrow> sample" where
  "mk_sample s r voltage batt_pct i =
     \<lparr>Timestamp_JST = Timestamp r - Timedelta_minutes (int i * 2),
      Distance_mm = be16_at s (4 + i * 4),
      Voltage_V = voltage,
      Battery_Pct = batt_pct,
      Sample_DeviceID = DeviceID r\<rparr>"

section \<open>The row parser\<close>

text \<open>
  \<open>str.strip()\<close> without an argument removes the characters for which \<open>str.isspace\<close>
  holds from both ends: tab to carriage return (9 to 13), the separators 28 to 31, the
  space, U+0085, U+00A0, U+1680, U+2000 to U+200A, U+2028, U+2029, U+202F, U+205F and
  U+3000.
\<close>

definition is_space :: "pychar \<Rightarrow> bool" where
  "is_space c \<longleftrightarrow>
     (9 \<le> c \<and> c \<le> 13) \<or> (28 \<le> c \<and> c \<le> 32) \<or> c = 133 \<or> c = 160 \<or> c = 5760 \<or>
     (8192 \<le> c \<and> c \<le> 8202) \<or> c = 8232 \<or> c = 8233 \<or> c = 8239 \<or> c = 8287 \<or> c = 12288"

definition strip :: "pystr \<Rightarrow> pystr" where
  "strip s = rev (dropWhile is_space (rev (dropWhile is_space s)))"

text \<open>\<open>s.replace(c, '')\<close> for a single character \<open>c\<close>.\<close>

definition replace_char :: "pychar \<Rightarrow> pystr \<Rightarrow> pystr" where
  "replace_char c s = filter (\<lambda>x. x \<noteq> c) s"

text \<open>
  \<open>s.split(sep)\<close> for a single character \<open>sep\<close>: the pieces between the separators, one
  more than there are separators, empty pieces kept.
\<close>

fun split_char :: "pychar \<Rightarrow> pystr \<Rightarrow> pystr list" where
  "split_char sep [] = [[]]"
| "split_char sep (c # cs) =
     (if c = sep then [] # split_char sep cs
      else (case split_char sep cs of
              [] \<Rightarrow> [[c]]
            | p # ps \<Rightarrow> (c # p) # ps))"

text \<open>\<open>needle in hay\<close> on strings: \<open>needle\<close> occurs in \<open>hay\<close> as a contiguous piece.\<close>

fun starts_with :: "pystr \<Rightarrow> pystr \<Rightarrow> bool" where
  "starts_with [] hay = True"
| "starts_with (x # xs) [] = False"
| "starts_with (x # xs) (y # ys) = (x = y \<and> starts_with xs ys)"

fun str_in :: "pystr \<Rightarrow> pystr \<Rightarrow> bool" where
  "str_in needle [] = (needle = [])"
| "str_in needle (y # ys) = (starts_with needle (y # ys) \<or> str_in needle ys)"

text \<open>The characters \<open>"\<close> (34), \<open>'\<close> (39) and \<open>;\<close> (59).\<close>

definition clean_part :: "pystr \<Rightarrow> pystr" where
  "clean_part p = replace_char 39 (replace_char 34 (strip p))"

definition clean_parts_of :: "pystr \<Rightarrow> pystr list" where
  "clean_parts_of line = map clean_part (split_char 59 line)"

text \<open>
  The body of the loop over the lines of the file. The result is the row appended to
  \<open>parsed_rows\<close>, or \<open>None\<close> when the line is passed over (it is empty, it has fewer than
  four fields, or it is the header).
\<close>

definition parse_line :: "pystr \<Rightarrow> (pystr \<times> pystr \<times> pystr) option" where
  "parse_line raw =
     (let line = strip raw
      in if line = [] then None
         else let clean_parts = clean_parts_of line
              in if length clean_parts \<ge> 4 then
                   (let data_str = clean_parts ! 0;
                        device_id = clean_parts ! 1;
                        timestamp = last clean_parts
                    in if str_in (py ''Data'') data_str \<and> str_in (py ''Timestamp'') timestamp
                       then None
                       else Some (data_str, device_id, timestamp))
                 else None)"

fun load_lines ::
  "pystr list \<Rightarrow> (pystr \<times> pystr \<times> pystr) list \<Rightarrow> (pystr \<times> pystr \<times> pystr) list" where
  "load_lines [] parsed_rows = parsed_rows"
| "load_lines (raw # rest) parsed_rows =
     (case parse_line raw of
        None \<Rightarrow> load_lines rest parsed_rows
      | Some parsed \<Rightarrow> load_lines rest (parsed_rows @ [parsed]))"

text \<open>
  \<open>load_data\<close>: the file is the list of its lines, or \<open>None\<close> when opening or reading it
  raises; then the result is the empty table.
\<close>

definition load_data :: "pystr list option \<Rightarrow> (pystr \<times> pystr \<times> pystr) list" where
  "load_data f = (case f of None \<Rightarrow> [] | Some lines \<Rightarrow> load_lines lines [])"

text \<open>An example row: the payload of the specification's test vector.\<close>

definition example_row :: row where
  "example_row =
     \<lparr>Data = py ''64320064012C01F401900258'', DeviceID = py ''1F06AD2'',
      Timestamp = 1700000000000000000\<rparr>"

text \<open>
  The same payload written with separators and followed by four more digits, a payload
  whose first two bytes are C8 and FF, and two lines of a file: the header and a data line.
\<close>

definition example_row_extended :: row where
  "example_row_extended =
     \<lparr>Data = py ''64-32-00-64 012C 01F4 0190 0258 ABCD'', DeviceID = py ''1F06AD2'',
      Timestamp = 1700000000000000000\<rparr>"

definition full_battery_row :: row where
  "full_battery_row =
     \<lparr>Data = py ''C8FF0064012C01F401900258'', DeviceID = py ''1F06AD2'',
      Timestamp = 1700000000000000000\<rparr>"

text \<open>
  Two rows with the payload of the test vector whose instants lie about two minutes
  and exactly four minutes after \<open>Timestamp.min\<close>.
\<close>

definition near_min_row :: row where
  "near_min_row =
     \<lparr>Data = py ''64320064012C01F401900258'', DeviceID = py ''1F06AD2'',
      Timestamp = - 9223371899999999999\<rparr>"

definition four_minute_row :: row where
  "four_minute_row =
     \<lparr>Data = py ''64320064012C01F401900258'', DeviceID = py ''1F06AD2'',
      Timestamp = - 9223371796854775807\<rparr>"

definition header_line :: pystr where
  "header_line = py ''Data;Device ID;Sequence number;Timestamp''"

definition data_line :: pystr where
  "data_line = py ''64320064012C01F401900258;1F06AD2;12;2024-01-01 00:00:00''"

section \<open>Hexadecimal text: what \<open>int(x, 16)\<close> returns on the slices\<close>

lemma hex_digit_nibble: "is_hex_char c \<Longrightarrow> hex_digit c = Some (nibble c)"
  by (auto simp: is_hex_char_def hex_digit_def nibble_def)

lemma nibble_range: "is_hex_char c \<Longrightarrow> 0 \<le> nibble c \<and> nibble c \<le> 15"
  by (auto simp: is_hex_char_def nibble_def)

lemma re_sub_non_hex_chars: "c \<in> set (re_sub_non_hex x) \<Longrightarrow> is_hex_char c"
  by (simp add: re_sub_non_hex_def)

lemma take_Suc_drop:
  "k < length s \<Longrightarrow> take (Suc n) (drop k s) = s ! k # take n (drop (Suc k) s)"
  by (simp add: Cons_nth_drop_Suc[symmetric])

lemma slice2: "k + 2 \<le> length s \<Longrightarrow> slice s k (k + 2) = [s ! k, s ! (k + 1)]"
  by (simp add: slice_def eval_nat_numeral take_Suc_drop)

lemma slice4:
  "k + 4 \<le> length s \<Longrightarrow> slice s k (k + 4) = [s ! k, s ! (k + 1), s ! (k + 2), s ! (k + 3)]"
  by (simp add: slice_def eval_nat_numeral take_Suc_drop)

lemma int16_byte:
  assumes "k + 2 \<le> length s" "\<forall>c\<in>set s. is_hex_char c"
  shows "int16 (slice s k (k + 2)) = Some (byte_at s k)"
proof -
  have h: "hex_digit (s ! k) = Some (nibble (s ! k))"
          "hex_digit (s ! (k + 1)) = Some (nibble (s ! (k + 1)))"
    using assms by (auto intro!: hex_digit_nibble)
  show ?thesis
    unfolding slice2[OF assms(1)] int16_def byte_at_def
    by (simp only: int16_digits.simps h option.case list.simps if_False) simp
qed

lemma int16_be16:
  assumes "k + 4 \<le> length s" "\<forall>c\<in>set s. is_hex_char c"
  shows "int16 (slice s k (k + 4)) = Some (be16_at s k)"
proof -
  have h: "hex_digit (s ! k) = Some (nibble (s ! k))"
          "hex_digit (s ! (k + 1)) = Some (nibble (s ! (k + 1)))"
          "hex_digit (s ! (k + 2)) = Some (nibble (s ! (k + 2)))"
          "hex_digit (s ! (k + 3)) = Some (nibble (s ! (k + 3)))"
    using assms by (auto intro!: hex_digit_nibble)
  have k3: "k + 2 + 1 = k + 3" by simp
  show ?thesis
    unfolding slice4[OF assms(1)] int16_def be16_at_def byte_at_def k3
    by (simp only: int16_digits.simps h option.case list.simps if_False) simp
qed

lemma int16_volt:
  assumes "24 \<le> length s" "\<forall>c\<in>set s. is_hex_char c"
  shows "int16 (slice s 0 2) = Some (byte_at s 0)"
proof -
  have "0 + 2 \<le> length s" using assms(1) by simp
  from int16_byte[OF this assms(2)] show ?thesis by (simp only: add_0)
qed

lemma int16_batt:
  assumes "24 \<le> length s" "\<forall>c\<in>set s. is_hex_char c"
  shows "int16 (slice s 2 4) = Some (byte_at s 2)"
proof -
  have "2 + 2 \<le> length s" using assms(1) by simp
  moreover have "(2::nat) + 2 = 4" by simp
  ultimately show ?thesis using int16_byte[of 2 s] assms(2) by (simp only:)
qed

section \<open>What \<open>decode_payload\<close> returns\<close>

text \<open>
  The subtraction of up to eight minutes succeeds on an instant that lies at least eight
  minutes after \<open>Timestamp.min\<close>, and the subtraction of eight minutes raises when the
  difference falls below the 64-bit range.
\<close>

lemma timestamp_sub_in_range:
  assumes "Timestamp_min + Timedelta_minutes 8 \<le> t" "t \<le> Timestamp_max" "i < 5"
  shows "timestamp_sub t (Timedelta_minutes (int i * 2))
           = Some (t - Timedelta_minutes (int i * 2))"
  using assms
  by (simp add: timestamp_sub_def Timestamp_min_def Timestamp_max_def Timedelta_minutes_def
      NaT_def Let_def)

lemma timestamp_sub_overflow:
  assumes "t \<noteq> NaT" "t - Timedelta_minutes 8 < NaT"
  shows "timestamp_sub t (Timedelta_minutes (int 4 * 2)) = None"
  using assms by (simp add: timestamp_sub_def Timedelta_minutes_def NaT_def Let_def)

text \<open>
  On a string of hexadecimal digits that is long enough for every index, \<open>int\<close> raises
  nothing: the loop appends one sample for each index, in order, unless a subtraction
  of the time raises.
\<close>

lemma extract_loop_char:
  assumes "\<forall>c\<in>set s. is_hex_char c" "\<forall>i\<in>set js. 4 + i * 4 + 4 \<le> length s"
  shows "extract_loop s r voltage batt_pct js acc =
           (if \<forall>i\<in>set js. timestamp_sub (Timestamp r) (Timedelta_minutes (int i * 2)) \<noteq> None
            then Some (acc @
                   map (\<lambda>i. (mk_sample s r voltage batt_pct i)
                          \<lparr>Timestamp_JST :=
                             the (timestamp_sub (Timestamp r) (Timedelta_minutes (int i * 2)))\<rparr>)
                       js)
            else None)"
  using assms(2)
proof (induction js arbitrary: acc)
  case Nil
  then show ?case by simp
next
  case (Cons i js)
  have d: "int16 (slice s (4 + i * 4) (4 + i * 4 + 4)) = Some (be16_at s (4 + i * 4))"
    using Cons.prems assms(1) by (intro int16_be16) auto
  have rest: "\<forall>i\<in>set js. 4 + i * 4 + 4 \<le> length s" using Cons.prems by simp
  show ?case
  proof (cases "timestamp_sub (Timestamp r) (Timedelta_minutes (int i * 2))")
    case None
    then show ?thesis using d by (simp add: Let_def)
  next
    case (Some record_time)
    then show ?thesis
      using d Cons.IH[OF rest] by (simp add: Let_def mk_sample_def)
  qed
qed

lemma decode_payload_char:
  assumes "24 \<le> length (re_sub_non_hex (Data r))"
  shows "decode_payload r =
           (if \<forall>i\<in>set [0..<5].
                 timestamp_sub (Timestamp r) (Timedelta_minutes (int i * 2)) \<noteq> None
            then map (\<lambda>i. (mk_sample (re_sub_non_hex (Data r)) r
                              (voltage_of (byte_at (re_sub_non_hex (Data r)) 0))
                              (byte_at (re_sub_non_hex (Data r)) 2) i)
                          \<lparr>Timestamp_JST :=
                             the (timestamp_sub (Timestamp r) (Timedelta_minutes (int i * 2)))\<rparr>)
                     [0..<5]
            else [])"
proof -
  define s where "s = re_sub_non_hex (Data r)"
  have hex: "\<forall>c\<in>set s. is_hex_char c"
    by (simp add: s_def re_sub_non_hex_chars)
  have len: "24 \<le> length s" using assms by (simp add: s_def)
  have idx: "\<forall>i\<in>set [0..<5]. 4 + i * 4 + 4 \<le> length s" using len by auto
  note l = extract_loop_char[OF hex idx, of r _ _ "[]"]
  show ?thesis
    unfolding decode_payload_def s_def[symmetric] Let_def
    using len
    by (simp only: int16_volt[OF len hex] int16_batt[OF len hex] l option.case)
       (simp del: upt_Suc)
qed

lemma decode_payload_eq:
  assumes "24 \<le> length (re_sub_non_hex (Data r))"
    and "Timestamp_min + Timedelta_minutes 8 \<le> Timestamp r" "Timestamp r \<le> Timestamp_max"
  shows "decode_payload r =
           map (mk_sample (re_sub_non_hex (Data r)) r
                  (voltage_of (byte_at (re_sub_non_hex (Data r)) 0))
                  (byte_at (re_sub_non_hex (Data r)) 2))
               [0..<5]"
proof -
  have ok: "timestamp_sub (Timestamp r) (Timedelta_minutes (int i * 2))
              = Some (Timestamp r - Timedelta_minutes (int i * 2))" if "i < 5" for i
    using timestamp_sub_in_range[OF assms(2,3) that] .
  then have "\<forall>i\<in>set [0..<5].
                 timestamp_sub (Timestamp r) (Timedelta_minutes (int i * 2)) \<noteq> None"
    by simp
  then show ?thesis
    unfolding decode_payload_char[OF assms(1)]
    by (simp only: if_P) (rule map_cong, simp, simp add: ok mk_sample_def)
qed

lemma decode_payload_raises:
  assumes "24 \<le> length (re_sub_non_hex (Data r))"
    and "Timestamp r \<noteq> NaT" "Timestamp r - Timedelta_minutes 8 < NaT"
  shows "decode_payload r = []"
proof -
  have "timestamp_sub (Timestamp r) (Timedelta_minutes (int 4 * 2)) = None"
    using timestamp_sub_overflow[OF assms(2,3)] .
  moreover have "4 \<in> set [0..<5]" by simp
  ultimately have "\<not> (\<forall>i\<in>set [0..<5].
                 timestamp_sub (Timestamp r) (Timedelta_minutes (int i * 2)) \<noteq> None)"
    by blast
  then show ?thesis
    unfolding decode_payload_char[OF assms(1)] by (simp only: if_False)
qed

text \<open>
  Every sample that is returned comes from a payload of at least 24 characters and is,
  up to its instant, the sample of some index below five.
\<close>

lemma decode_payload_member:
  assumes "x \<in> set (decode_payload r)"
  shows "24 \<le> length (re_sub_non_hex (Data r))"
    and "\<exists>i<5. \<exists>t. x = (mk_sample (re_sub_non_hex (Data r)) r
                              (voltage_of (byte_at (re_sub_non_hex (Data r)) 0))
                              (byte_at (re_sub_non_hex (Data r)) 2) i)
                          \<lparr>Timestamp_JST := t\<rparr>"
proof -
  show long: "24 \<le> length (re_sub_non_hex (Data r))"
    using assms by (cases "length (re_sub_non_hex (Data r)) < 24") (simp_all add: decode_payload_def)
  from assms obtain i where "i \<in> set [0..<5]"
    and "x = (mk_sample (re_sub_non_hex (Data r)) r
                (voltage_of (byte_at (re_sub_non_hex (Data r)) 0))
                (byte_at (re_sub_non_hex (Data r)) 2) i)
             \<lparr>Timestamp_JST :=
                the (timestamp_sub (Timestamp r) (Timedelta_minutes (int i * 2)))\<rparr>"
    unfolding decode_payload_char[OF long] by (auto split: if_splits simp del: upt_Suc)
  then show "\<exists>i<5. \<exists>t. x = (mk_sample (re_sub_non_hex (Data r)) r
                              (voltage_of (byte_at (re_sub_non_hex (Data r)) 0))
                              (byte_at (re_sub_non_hex (Data r)) 2) i)
                          \<lparr>Timestamp_JST := t\<rparr>"
    by auto
qed

lemma upt_0_5: "[0..<5] = [0, 1, 2, 3, 4]"
  by (simp add: upt_rec)

lemma decode_payload_nonempty:
  assumes "24 \<le> length (re_sub_non_hex (Data r))"
    and "Timestamp_min + Timedelta_minutes 8 \<le> Timestamp r" "Timestamp r \<le> Timestamp_max"
  shows "decode_payload r \<noteq> []"
    and "hd (decode_payload r) = mk_sample (re_sub_non_hex (Data r)) r
                  (voltage_of (byte_at (re_sub_non_hex (Data r)) 0))
                  (byte_at (re_sub_non_hex (Data r)) 2) 0"
  unfolding decode_payload_eq[OF assms] upt_0_5 by simp_all

lemma example_payload_chars:
  "re_sub_non_hex (py ''64320064012C01F401900258'') = py ''64320064012C01F401900258''"
  by (simp add: re_sub_non_hex_def py_def is_hex_char_def)

lemma example_row_long: "24 \<le> length (re_sub_non_hex (Data example_row))"
  by (simp add: example_row_def example_payload_chars) (simp add: py_def)

text \<open>
  Claim C6. A row whose data field keeps fewer than 24 characters once every character
  outside \<open>0-9a-fA-F\<close> is removed decodes to the empty list; the function returns, it
  raises nothing.
\<close>

theorem decode_payload_short:
  "length (re_sub_non_hex (Data r)) < 24 \<Longrightarrow> decode_payload r = []"
  by (simp add: decode_payload_def)

theorem decode_payload_short_witness:
  "length (re_sub_non_hex
     (Data \<lparr>Data = py ''6432-00 64zz'', DeviceID = py ''1F06AD2'', Timestamp = 0\<rparr>)) < 24
   \<and> decode_payload \<lparr>Data = py ''6432-00 64zz'', DeviceID = py ''1F06AD2'', Timestamp = 0\<rparr>
       = []"
proof -
  have h: "length (re_sub_non_hex
     (Data \<lparr>Data = py ''6432-00 64zz'', DeviceID = py ''1F06AD2'', Timestamp = 0\<rparr>)) < 24"
    by (simp add: re_sub_non_hex_def py_def is_hex_char_def)
  show ?thesis using h decode_payload_short[OF h] by simp
qed

lemma example_row_time:
  "Timestamp_min + Timedelta_minutes 8 \<le> Timestamp example_row"
  "Timestamp example_row \<le> Timestamp_max"
  by (simp_all add: example_row_def Timestamp_min_def Timestamp_max_def Timedelta_minutes_def)

lemma near_min_row_long: "24 \<le> length (re_sub_non_hex (Data near_min_row))"
  by (simp add: near_min_row_def example_payload_chars) (simp add: py_def)

lemma near_min_row_time:
  "Timestamp_min \<le> Timestamp near_min_row" "Timestamp near_min_row \<le> Timestamp_max"
  "Timestamp near_min_row \<noteq> NaT" "Timestamp near_min_row - Timedelta_minutes 8 < NaT"
  by (simp_all add: near_min_row_def Timestamp_min_def Timestamp_max_def Timedelta_minutes_def
      NaT_def)

text \<open>
  Claim C2, as stated, fails. The row \<open>near_min_row\<close> has a payload of 24 hexadecimal
  digits and an instant between \<open>Timestamp.min\<close> and \<open>Timestamp.max\<close>, a little over two
  minutes after \<open>Timestamp.min\<close>. Subtracting four minutes from it overflows, the
  exception is caught, and the row decodes to no sample at all.
\<close>

theorem decode_payload_near_min:
  "24 \<le> length (re_sub_non_hex (Data near_min_row)) \<and>
   Timestamp_min \<le> Timestamp near_min_row \<and> Timestamp near_min_row \<le> Timestamp_max \<and>
   timestamp_sub (Timestamp near_min_row) (Timedelta_minutes 4) = None \<and>
   decode_payload near_min_row = [] \<and>
   length (decode_payload near_min_row) \<noteq> 5"
proof -
  have "timestamp_sub (Timestamp near_min_row) (Timedelta_minutes 4) = None"
    by (simp add: near_min_row_def timestamp_sub_def Timedelta_minutes_def NaT_def)
  moreover have "decode_payload near_min_row = []"
    using near_min_row_long near_min_row_time(3,4) by (rule decode_payload_raises)
  ultimately show ?thesis
    using near_min_row_long near_min_row_time(1,2) by simp
qed

text \<open>
  Claim C2, amended. A row whose normalized payload has at least 24 characters and whose
  instant lies between \<open>Timestamp.min\<close> plus eight minutes and \<open>Timestamp.max\<close> decodes to
  exactly five samples. Sample \<open>i\<close> carries the row's instant less \<open>i\<close> times two minutes,
  so the instants decrease strictly, two minutes at a step, newest first; and all five
  samples carry the voltage computed from the first byte, the battery percentage read
  from the second byte and the row's device. A row with such a payload whose instant less
  eight minutes falls below the 64-bit range decodes to no sample.
\<close>

theorem decode_payload_five:
  "(24 \<le> length (re_sub_non_hex (Data r)) \<and>
    Timestamp_min + Timedelta_minutes 8 \<le> Timestamp r \<and> Timestamp r \<le> Timestamp_max \<longrightarrow>
      length (decode_payload r) = 5 \<and>
      (\<forall>i<5. Timestamp_JST (decode_payload r ! i)
               = Timestamp r - Timedelta_minutes (2 * int i)) \<and>
      (\<forall>i<4. Timestamp_JST (decode_payload r ! Suc i) < Timestamp_JST (decode_payload r ! i) \<and>
             Timestamp_JST (decode_payload r ! i) - Timestamp_JST (decode_payload r ! Suc i)
               = Timedelta_minutes 2) \<and>
      (\<exists>volt_val batt_pct.
         int16 (slice (re_sub_non_hex (Data r)) 0 2) = Some volt_val \<and>
         int16 (slice (re_sub_non_hex (Data r)) 2 4) = Some batt_pct \<and>
         (\<forall>x\<in>set (decode_payload r).
            Voltage_V x = voltage_of volt_val \<and> Battery_Pct x = batt_pct \<and>
            Sample_DeviceID x = DeviceID r))) \<and>
   (24 \<le> length (re_sub_non_hex (Data r)) \<and>
    Timestamp_min \<le> Timestamp r \<and> Timestamp r - Timedelta_minutes 8 < NaT \<longrightarrow>
      decode_payload r = [])"
proof (intro conjI impI)
  assume a: "24 \<le> length (re_sub_non_hex (Data r)) \<and>
    Timestamp_min + Timedelta_minutes 8 \<le> Timestamp r \<and> Timestamp r \<le> Timestamp_max"
  define s where "s = re_sub_non_hex (Data r)"
  have hex: "\<forall>c\<in>set s. is_hex_char c"
    by (simp add: s_def re_sub_non_hex_chars)
  have long: "24 \<le> length s" using a by (simp add: s_def)
  have eq: "decode_payload r =
           map (mk_sample (re_sub_non_hex (Data r)) r
                  (voltage_of (byte_at (re_sub_non_hex (Data r)) 0))
                  (byte_at (re_sub_non_hex (Data r)) 2))
               [0..<5]"
    using a by (intro decode_payload_eq) simp_all
  show len: "length (decode_payload r) = 5" by (simp add: eq)
  show ts: "\<forall>i<5. Timestamp_JST (decode_payload r ! i)
                  = Timestamp r - Timedelta_minutes (2 * int i)"
    by (simp add: eq mk_sample_def mult.commute del: upt_Suc)
  show "\<forall>i<4. Timestamp_JST (decode_payload r ! Suc i) < Timestamp_JST (decode_payload r ! i) \<and>
                Timestamp_JST (decode_payload r ! i) - Timestamp_JST (decode_payload r ! Suc i)
                  = Timedelta_minutes 2"
  proof (intro allI impI)
    fix i :: nat assume "i < 4"
    then have "i < 5" "Suc i < 5" by simp_all
    with ts have
      "Timestamp_JST (decode_payload r ! i) = Timestamp r - Timedelta_minutes (2 * int i)"
      "Timestamp_JST (decode_payload r ! Suc i)
         = Timestamp r - Timedelta_minutes (2 * int (Suc i))"
      by blast+
    then show "Timestamp_JST (decode_payload r ! Suc i) < Timestamp_JST (decode_payload r ! i) \<and>
                Timestamp_JST (decode_payload r ! i) - Timestamp_JST (decode_payload r ! Suc i)
                  = Timedelta_minutes 2"
      by (simp add: Timedelta_minutes_def)
  qed
  have shared: "\<forall>x\<in>set (decode_payload r).
               Voltage_V x = voltage_of (byte_at s 0) \<and> Battery_Pct x = byte_at s 2 \<and>
               Sample_DeviceID x = DeviceID r"
    unfolding eq s_def by (auto simp: mk_sample_def)
  show "\<exists>volt_val batt_pct.
         int16 (slice (re_sub_non_hex (Data r)) 0 2) = Some volt_val \<and>
         int16 (slice (re_sub_non_hex (Data r)) 2 4) = Some batt_pct \<and>
         (\<forall>x\<in>set (decode_payload r).
            Voltage_V x = voltage_of volt_val \<and> Battery_Pct x = batt_pct \<and>
            Sample_DeviceID x = DeviceID r)"
    using int16_volt[OF long hex] int16_batt[OF long hex] shared
    unfolding s_def by blast
next
  assume b: "24 \<le> length (re_sub_non_hex (Data r)) \<and>
    Timestamp_min \<le> Timestamp r \<and> Timestamp r - Timedelta_minutes 8 < NaT"
  then have "Timestamp r \<noteq> NaT" by (simp add: Timestamp_min_def NaT_def)
  with b show "decode_payload r = []" by (intro decode_payload_raises) simp_all
qed

theorem decode_payload_five_witness:
  "24 \<le> length (re_sub_non_hex (Data example_row)) \<and>
   Timestamp_min + Timedelta_minutes 8 \<le> Timestamp example_row \<and>
   Timestamp example_row \<le> Timestamp_max \<and>
   length (decode_payload example_row) = 5 \<and>
   Timestamp_JST (decode_payload example_row ! 3) = 1699999640000000000 \<and>
   24 \<le> length (re_sub_non_hex (Data near_min_row)) \<and>
   Timestamp_min \<le> Timestamp near_min_row \<and>
   Timestamp near_min_row - Timedelta_minutes 8 < NaT \<and>
   decode_payload near_min_row = []"
proof -
  have h: "24 \<le> length (re_sub_non_hex (Data example_row)) \<and>
    Timestamp_min + Timedelta_minutes 8 \<le> Timestamp example_row \<and>
    Timestamp example_row \<le> Timestamp_max"
    using example_row_long example_row_time by simp
  have g: "24 \<le> length (re_sub_non_hex (Data near_min_row)) \<and>
    Timestamp_min \<le> Timestamp near_min_row \<and>
    Timestamp near_min_row - Timedelta_minutes 8 < NaT"
    using near_min_row_long near_min_row_time by simp
  have "Timestamp_JST (decode_payload example_row ! 3)
          = Timestamp example_row - Timedelta_minutes (2 * int 3)"
    using h decode_payload_five[of example_row] by simp
  then have "Timestamp_JST (decode_payload example_row ! 3) = 1699999640000000000"
    by (simp add: example_row_def Timedelta_minutes_def)
  moreover have "length (decode_payload example_row) = 5"
    using h decode_payload_five[of example_row] by blast
  moreover have "decode_payload near_min_row = []"
    using g decode_payload_five[of near_min_row] by blast
  ultimately show ?thesis using h g by blast
qed

section \<open>Rounding to a float\<close>

text \<open>
  Rounding to the nearest integer is monotone, fixes the integers and moves a number by
  at most one half. Rounding to a float therefore is monotone on the non-negative
  numbers, stays inside the binade of its argument, and moves a positive number by at
  most half a unit in the last place.
\<close>

lemma round_half_even_of_int: "round_half_even (of_int n) = n"
  by (simp add: round_half_even_def)

lemma round_half_even_floor: "\<lfloor>q\<rfloor> \<le> round_half_even q \<and> round_half_even q \<le> \<lfloor>q\<rfloor> + 1"
  by (simp add: round_half_even_def Let_def)

lemma round_half_even_near:
  "\<bar>of_int (round_half_even q) - q\<bar> \<le> 1 / 2"
proof -
  have "of_int \<lfloor>q\<rfloor> \<le> q" "q < of_int \<lfloor>q\<rfloor> + 1" by linarith+
  then show ?thesis
    by (auto simp: round_half_even_def Let_def abs_le_iff)
qed

lemma round_half_even_mono:
  assumes "q \<le> q'"
  shows "round_half_even q \<le> round_half_even q'"
proof (cases "\<lfloor>q\<rfloor> < \<lfloor>q'\<rfloor>")
  case True
  then show ?thesis
    using round_half_even_floor[of q] round_half_even_floor[of q'] by linarith
next
  case False
  then have "\<lfloor>q\<rfloor> = \<lfloor>q'\<rfloor>" using floor_mono[OF assms] by linarith
  then show ?thesis
    using assms by (auto simp: round_half_even_def Let_def)
qed

lemma powi_nat: "0 \<le> k \<Longrightarrow> (2::rat) powi k = 2 ^ nat k"
  by (simp add: power_int_def)

lemma binade_bounds:
  assumes "0 < x"
  shows "2 powi binade x \<le> x \<and> x < 2 powi (binade x + 1)"
proof -
  obtain a b where q: "quotient_of x = (a, b)" by fastforce
  have b: "0 < b" using quotient_of_denom_pos[OF q] .
  have x: "x = of_int a / of_int b" using quotient_of_div[OF q] .
  have a: "0 < a" using assms b x by (simp add: zero_less_divide_iff)
  define la lb where "la = bitlen a" and "lb = bitlen b"
  have la1: "1 \<le> la" and lb1: "1 \<le> lb"
    using a b bitlen_eq_zero_iff[of a] bitlen_eq_zero_iff[of b] bitlen_nonneg[of a] bitlen_nonneg[of b]
    by (auto simp: la_def lb_def)
  have "2 ^ nat (la - 1) \<le> a" "a < 2 ^ nat la" "2 ^ nat (lb - 1) \<le> b" "b < 2 ^ nat lb"
    using bitlen_bounds[OF a] bitlen_bounds[OF b] by (simp_all add: la_def lb_def)
  then have "(of_int (2 ^ nat (la - 1)) :: rat) \<le> of_int a" "(of_int a :: rat) < of_int (2 ^ nat la)"
       "(of_int (2 ^ nat (lb - 1)) :: rat) \<le> of_int b" "(of_int b :: rat) < of_int (2 ^ nat lb)"
    by (simp_all only: of_int_le_iff of_int_less_iff)
  then have ra: "(2::rat) powi (la - 1) \<le> of_int a" "of_int a < (2::rat) powi la"
       and rb: "(2::rat) powi (lb - 1) \<le> of_int b" "of_int b < (2::rat) powi lb"
    using la1 lb1 by (simp_all add: powi_nat)
  have bpos: "(0::rat) < of_int b" using b by simp
  have apos: "(0::rat) < of_int a" using a by simp
  have up: "x < 2 powi (la - lb + 1)"
  proof -
    have "x < 2 powi la / of_int b" unfolding x using ra(2) bpos by (simp add: divide_strict_right_mono)
    also have "\<dots> \<le> 2 powi la / 2 powi (lb - 1)"
      using rb(1) bpos by (intro divide_left_mono) simp_all
    also have "\<dots> = 2 powi (la - (lb - 1))"
      by (simp add: power_int_diff)
    also have "la - (lb - 1) = la - lb + 1" by simp
    finally show ?thesis .
  qed
  have low: "2 powi (la - lb - 1) < x"
  proof -
    have "la - lb - 1 = (la - 1) - lb" by simp
    then have "(2::rat) powi (la - lb - 1) = 2 powi ((la - 1) - lb)" by (simp only:)
    also have "\<dots> = 2 powi (la - 1) / 2 powi lb"
      by (simp add: power_int_diff)
    also have "\<dots> < 2 powi (la - 1) / of_int b"
      using rb(2) bpos by (intro divide_strict_left_mono) simp_all
    also have "\<dots> \<le> x" unfolding x using ra(1) bpos by (simp add: divide_right_mono)
    finally show ?thesis .
  qed
  have eq: "binade x = (if 2 powi (la - lb) \<le> x then la - lb else la - lb - 1)"
    by (simp add: binade_def q la_def lb_def Let_def)
  show ?thesis
  proof (cases "2 powi (la - lb) \<le> x")
    case True
    then show ?thesis using up by (simp add: eq)
  next
    case False
    then show ?thesis using low by (simp add: eq)
  qed
qed


lemma binade_less:
  assumes "0 < x" "x < 2 powi k"
  shows "binade x < k"
proof (rule ccontr)
  assume "\<not> binade x < k"
  then have "k \<le> binade x" by simp
  then have "(2::rat) powi k \<le> 2 powi binade x" by (intro power_int_increasing) simp_all
  with binade_bounds[OF assms(1)] assms(2) show False by linarith
qed

lemma binade_mono:
  assumes "0 < x" "x \<le> y"
  shows "binade x \<le> binade y"
proof -
  have y: "0 < y" using assms by linarith
  have "2 powi binade x \<le> y" using binade_bounds[OF assms(1)] assms(2) by linarith
  moreover have "y < 2 powi (binade y + 1)" using binade_bounds[OF y] by simp
  ultimately have "(2::rat) powi binade x < 2 powi (binade y + 1)" by linarith
  then have "binade x < binade y + 1"
    by (metis not_less power_int_increasing one_le_numeral)
  then show ?thesis by simp
qed

lemma round_double_pos:
  "0 < x \<Longrightarrow> round_double x
     = of_int (round_half_even (x / 2 powi (binade x - 52))) * 2 powi (binade x - 52)"
  by (simp add: round_double_def Let_def)

lemma round_double_range:
  assumes "0 < x"
  shows "2 powi binade x \<le> round_double x \<and> round_double x \<le> 2 powi (binade x + 1)"
proof -
  define u :: rat where "u = 2 powi (binade x - 52)"
  have u: "0 < u" by (simp add: u_def)
  have lo: "2 powi binade x = 2 ^ 52 * u" and hi: "2 powi (binade x + 1) = 2 ^ 53 * u"
    by (simp_all add: u_def power_int_diff power_int_add)
  have "2 ^ 52 * u \<le> x" "x < 2 ^ 53 * u"
    using binade_bounds[OF assms] by (simp_all only: lo hi)
  then have q: "of_int (2 ^ 52) \<le> x / u" "x / u \<le> of_int (2 ^ 53)"
    using u by (simp_all add: field_simps)
  have "round_half_even (of_int (2 ^ 52)) \<le> round_half_even (x / u)"
       "round_half_even (x / u) \<le> round_half_even (of_int (2 ^ 53))"
    using q by (simp_all only: round_half_even_mono)
  then have "2 ^ 52 \<le> round_half_even (x / u)" "round_half_even (x / u) \<le> 2 ^ 53"
    by (simp_all only: round_half_even_of_int)
  then have "(of_int (2 ^ 52) :: rat) \<le> of_int (round_half_even (x / u))"
            "(of_int (round_half_even (x / u)) :: rat) \<le> of_int (2 ^ 53)"
    by (simp_all only: of_int_le_iff)
  then have "2 ^ 52 * u \<le> of_int (round_half_even (x / u)) * u"
            "of_int (round_half_even (x / u)) * u \<le> 2 ^ 53 * u"
    using u by simp_all
  then show ?thesis
    by (simp only: lo hi round_double_pos[OF assms] u_def)
qed

lemma round_double_mono:
  assumes "0 \<le> x" "x \<le> y"
  shows "round_double x \<le> round_double y"
proof (cases "x = 0")
  case True
  show ?thesis
  proof (cases "y = 0")
    case True
    with \<open>x = 0\<close> show ?thesis by simp
  next
    case False
    then have "0 < y" using assms True by simp
    then have "0 < round_double y"
      using round_double_range[of y] zero_less_power_int[of "2::rat" "binade y"] by linarith
    then show ?thesis using True by (simp add: round_double_def)
  qed
next
  case False
  then have x: "0 < x" using assms by simp
  then have y: "0 < y" using assms by linarith
  show ?thesis
  proof (cases "binade x = binade y")
    case True
    define u :: rat where "u = 2 powi (binade x - 52)"
    have u: "0 < u" by (simp add: u_def)
    have "x / u \<le> y / u" using assms(2) u by (simp add: divide_right_mono)
    then have "round_half_even (x / u) \<le> round_half_even (y / u)"
      by (rule round_half_even_mono)
    then have "(of_int (round_half_even (x / u)) :: rat) * u \<le> of_int (round_half_even (y / u)) * u"
      using u by simp
    then show ?thesis
      by (simp only: round_double_pos[OF x] round_double_pos[OF y] True[symmetric] u_def)
  next
    case False
    then have "binade x + 1 \<le> binade y" using binade_mono[OF x assms(2)] by simp
    then have "(2::rat) powi (binade x + 1) \<le> 2 powi binade y"
      by (intro power_int_increasing) simp_all
    then show ?thesis
      using round_double_range[OF x] round_double_range[OF y] by linarith
  qed
qed

lemma round_double_near:
  assumes "0 < x"
  shows "\<bar>round_double x - x\<bar> \<le> 2 powi (binade x - 53)"
proof -
  define u :: rat where "u = 2 powi (binade x - 52)"
  have u: "0 < u" by (simp add: u_def)
  have half: "2 powi (binade x - 53) = u / 2"
    by (simp add: u_def power_int_diff)
  have "\<bar>of_int (round_half_even (x / u)) - x / u\<bar> * u \<le> 1 / 2 * u"
    using round_half_even_near[of "x / u"] u by (intro mult_right_mono) simp_all
  moreover have "\<bar>of_int (round_half_even (x / u)) - x / u\<bar> * u
                 = \<bar>of_int (round_half_even (x / u)) * u - x\<bar>"
  proof -
    have "\<bar>of_int (round_half_even (x / u)) - x / u\<bar> * u
            = \<bar>(of_int (round_half_even (x / u)) - x / u) * u\<bar>"
      using u by (simp add: abs_mult)
    also have "(of_int (round_half_even (x / u)) - x / u) * u
                 = of_int (round_half_even (x / u)) * u - x"
      using u by (simp add: left_diff_distrib)
    finally show ?thesis .
  qed
  ultimately show ?thesis
    by (simp add: half round_double_pos[OF assms] u_def[symmetric])
qed

subsection \<open>The voltage of a byte\<close>

lemma lit_0_0125_value: "lit_0_0125 = 3602879701896397 / 288230376151711744"
  by code_simp

lemma round_double_255: "round_double (255 * lit_0_0125) = 51 / 16"
  by code_simp

lemma round_double_1: "round_double 1 = 1"
  by code_simp

lemma round_double_67_16: "round_double (67 / 16) = 67 / 16"
  by code_simp

lemma voltage_of_0: "voltage_of 0 = 1"
  by code_simp

lemma voltage_of_100: "voltage_of 100 = 9 / 4"
  by code_simp

lemma voltage_of_200: "voltage_of 200 = 7 / 2"
  by code_simp

lemma float_mul_byte_range:
  assumes "0 \<le> v" "v \<le> 255"
  shows "0 \<le> float_mul (of_int v) lit_0_0125 \<and> float_mul (of_int v) lit_0_0125 \<le> 51 / 16"
proof -
  have c: "0 < lit_0_0125" by (simp add: lit_0_0125_value)
  have "0 \<le> of_int v * lit_0_0125" using assms(1) c by simp
  moreover have "of_int v * lit_0_0125 \<le> 255 * lit_0_0125"
    using assms(2) c by (intro mult_right_mono) simp_all
  ultimately have "round_double 0 \<le> round_double (of_int v * lit_0_0125)"
    "round_double (of_int v * lit_0_0125) \<le> round_double (255 * lit_0_0125)"
    by (simp_all only: round_double_mono)
  then show ?thesis
    by (simp add: float_mul_def round_double_255) (simp add: round_double_def)
qed

lemma voltage_of_range:
  assumes "0 \<le> v" "v \<le> 255"
  shows "1 \<le> voltage_of v \<and> voltage_of v \<le> 67 / 16"
proof -
  define m where "m = float_mul (of_int v) lit_0_0125"
  have m: "0 \<le> m" "m \<le> 51 / 16"
    using float_mul_byte_range[OF assms] by (simp_all add: m_def)
  have "0 \<le> (1::rat)" "1 \<le> m + 1" "0 \<le> m + 1" "m + 1 \<le> 67 / 16" using m by simp_all
  then have "round_double 1 \<le> round_double (m + 1)"
            "round_double (m + 1) \<le> round_double (67 / 16)"
    by (simp_all only: round_double_mono)
  then show ?thesis
    by (simp only: voltage_of_def float_add_def m_def[symmetric] round_double_1 round_double_67_16)
qed

lemma voltage_of_near_line:
  assumes "0 \<le> v" "v \<le> 255"
  shows "\<bar>voltage_of v - (of_int v / 80 + 1)\<bar> \<le> 1 / 2 ^ 50"
proof -
  define p where "p = of_int v * lit_0_0125"
  define m where "m = round_double p"
  have c: "lit_0_0125 - 1 / 80 = 1 / (5 * 2 ^ 58)" by (simp add: lit_0_0125_value)
  have e1: "\<bar>p - of_int v / 80\<bar> \<le> 51 / 2 ^ 58"
  proof -
    have "p - of_int v / 80 = of_int v * (lit_0_0125 - 1 / 80)"
      by (simp add: p_def right_diff_distrib)
    also have "\<dots> = of_int v / (5 * 2 ^ 58)" by (simp only: c) simp
    finally have "p - of_int v / 80 = of_int v / (5 * 2 ^ 58)" .
    moreover have "(of_int v :: rat) \<le> 255" "(0::rat) \<le> of_int v" using assms by simp_all
    ultimately show ?thesis by (simp add: field_simps)
  qed
  have p: "0 \<le> p" "p < 4"
  proof -
    show "0 \<le> p" using assms by (simp add: p_def lit_0_0125_value)
    have "p \<le> 255 * lit_0_0125"
      unfolding p_def using assms by (intro mult_right_mono) (simp_all add: lit_0_0125_value)
    then show "p < 4" by (simp add: lit_0_0125_value)
  qed
  have e2: "\<bar>m - p\<bar> \<le> 1 / 2 ^ 52"
  proof (cases "p = 0")
    case True
    then show ?thesis by (simp add: m_def round_double_def)
  next
    case False
    then have pos: "0 < p" using p by simp
    have "p < 2 powi 2" using p by simp
    then have "binade p < 2" by (rule binade_less[OF pos])
    then have "binade p - 53 \<le> - 52" by simp
    then have "(2::rat) powi (binade p - 53) \<le> 2 powi (- 52)"
      by (intro power_int_increasing) simp_all
    then show ?thesis
      using round_double_near[OF pos] by (simp add: m_def power_int_minus_divide)
  qed
  have mr: "0 \<le> m" "m \<le> 51 / 16"
    using float_mul_byte_range[OF assms] by (simp_all add: m_def p_def float_mul_def)
  have e3: "\<bar>round_double (m + 1) - (m + 1)\<bar> \<le> 1 / 2 ^ 51"
  proof -
    have pos: "0 < m + 1" using mr by simp
    have "m + 1 < 2 powi 3" using mr by simp
    then have "binade (m + 1) < 3" by (rule binade_less[OF pos])
    then have "binade (m + 1) - 53 \<le> - 51" by simp
    then have "(2::rat) powi (binade (m + 1) - 53) \<le> 2 powi (- 51)"
      by (intro power_int_increasing) simp_all
    then show ?thesis
      using round_double_near[OF pos] by (simp add: power_int_minus_divide)
  qed
  have "voltage_of v = round_double (m + 1)"
    by (simp add: voltage_of_def float_add_def float_mul_def m_def p_def)
  moreover have "round_double (m + 1) - (of_int v / 80 + 1)
      = (round_double (m + 1) - (m + 1)) + (m - p) + (p - of_int v / 80)" by simp
  moreover have "(1::rat) / 2 ^ 51 + 1 / 2 ^ 52 + 51 / 2 ^ 58 \<le> 1 / 2 ^ 50" by simp
  ultimately show ?thesis using e1 e2 e3 by linarith
qed

section \<open>Ranges of the decoded fields\<close>

lemma byte_at_range:
  assumes "k + 2 \<le> length s" "\<forall>c\<in>set s. is_hex_char c"
  shows "0 \<le> byte_at s k \<and> byte_at s k \<le> 255"
proof -
  have "is_hex_char (s ! k)" "is_hex_char (s ! (k + 1))" using assms by auto
  then show ?thesis
    using nibble_range[of "s ! k"] nibble_range[of "s ! (k + 1)"]
    by (simp add: byte_at_def)
qed

lemma be16_at_range:
  assumes "k + 4 \<le> length s" "\<forall>c\<in>set s. is_hex_char c"
  shows "0 \<le> be16_at s k \<and> be16_at s k \<le> 65535"
proof -
  have "k + 2 \<le> length s" "k + 2 + 2 \<le> length s" using assms(1) by simp_all
  from byte_at_range[OF this(1) assms(2)] byte_at_range[OF this(2) assms(2)]
  show ?thesis by (simp add: be16_at_def)
qed

lemma byte_at_take: "k + 2 \<le> n \<Longrightarrow> byte_at (take n s) k = byte_at s k"
  by (simp add: byte_at_def)

lemma be16_at_take: "k + 4 \<le> n \<Longrightarrow> be16_at (take n s) k = be16_at s k"
  by (simp add: be16_at_def byte_at_take)

lemma decode_payload_take:
  assumes "24 \<le> length (re_sub_non_hex (Data r))"
  shows "decode_payload r =
           (if \<forall>i\<in>set [0..<5].
                 timestamp_sub (Timestamp r) (Timedelta_minutes (int i * 2)) \<noteq> None
            then map (\<lambda>i. (mk_sample (take 24 (re_sub_non_hex (Data r))) r
                              (voltage_of (byte_at (take 24 (re_sub_non_hex (Data r))) 0))
                              (byte_at (take 24 (re_sub_non_hex (Data r))) 2) i)
                          \<lparr>Timestamp_JST :=
                             the (timestamp_sub (Timestamp r) (Timedelta_minutes (int i * 2)))\<rparr>)
                     [0, 1, 2, 3, 4]
            else [])"
  unfolding decode_payload_char[OF assms] upt_0_5
  by (simp add: mk_sample_def be16_at_take byte_at_take)

text \<open>
  Claim C10. In every sample that \<open>decode_payload\<close> returns the distance is an integer
  from 0 to 65535, the voltage lies between 1.0 and 4.1875 (67/16) and the battery
  percentage is an integer from 0 to 255. The result depends on the data field only
  through the first 24 characters of the normalized string: two rows with the same device
  and instant whose normalized payloads agree on their first 24 characters decode alike.
\<close>

theorem decode_payload_ranges:
  "(\<forall>x\<in>set (decode_payload r).
      0 \<le> Distance_mm x \<and> Distance_mm x \<le> 65535 \<and>
      1 \<le> Voltage_V x \<and> Voltage_V x \<le> 67 / 16 \<and>
      0 \<le> Battery_Pct x \<and> Battery_Pct x \<le> 255) \<and>
   (take 24 (re_sub_non_hex (Data r)) = take 24 (re_sub_non_hex (Data r')) \<and>
    DeviceID r = DeviceID r' \<and> Timestamp r = Timestamp r'
    \<longrightarrow> decode_payload r = decode_payload r')"
proof (intro conjI ballI impI)
  define s where "s = re_sub_non_hex (Data r)"
  have hex: "\<forall>c\<in>set s. is_hex_char c"
    by (simp add: s_def re_sub_non_hex_chars)
  fix x assume x: "x \<in> set (decode_payload r)"
  have long: "24 \<le> length s"
    using decode_payload_member(1)[OF x] by (simp add: s_def)
  from decode_payload_member(2)[OF x] obtain i t where i: "i < 5"
    and xi: "x = (mk_sample s r (voltage_of (byte_at s 0)) (byte_at s 2) i)
                   \<lparr>Timestamp_JST := t\<rparr>"
    unfolding s_def by blast
  have d: "0 \<le> be16_at s (4 + i * 4) \<and> be16_at s (4 + i * 4) \<le> 65535"
    using i long by (intro be16_at_range[OF _ hex]) simp
  have v: "0 \<le> byte_at s 0 \<and> byte_at s 0 \<le> 255"
    using long by (intro byte_at_range[OF _ hex]) simp
  have b: "0 \<le> byte_at s 2 \<and> byte_at s 2 \<le> 255"
    using long by (intro byte_at_range[OF _ hex]) simp
  have vr: "1 \<le> voltage_of (byte_at s 0) \<and> voltage_of (byte_at s 0) \<le> 67 / 16"
    using v by (intro voltage_of_range) simp_all
  show "0 \<le> Distance_mm x" "Distance_mm x \<le> 65535" "1 \<le> Voltage_V x"
    "Voltage_V x \<le> 67 / 16" "0 \<le> Battery_Pct x" "Battery_Pct x \<le> 255"
    using d vr b by (simp_all add: xi mk_sample_def)
next
  assume a: "take 24 (re_sub_non_hex (Data r)) = take 24 (re_sub_non_hex (Data r')) \<and>
    DeviceID r = DeviceID r' \<and> Timestamp r = Timestamp r'"
  show "decode_payload r = decode_payload r'"
  proof (cases "length (re_sub_non_hex (Data r)) < 24")
    case True
    moreover have "length (take 24 (re_sub_non_hex (Data r)))
                     = length (take 24 (re_sub_non_hex (Data r')))"
      using a by simp
    ultimately have "length (re_sub_non_hex (Data r')) < 24" by simp
    with True show ?thesis by (simp add: decode_payload_def)
  next
    case False
    then have l: "24 \<le> length (re_sub_non_hex (Data r))" by simp
    have "length (take 24 (re_sub_non_hex (Data r)))
            = length (take 24 (re_sub_non_hex (Data r')))"
      using a by simp
    then have l': "24 \<le> length (re_sub_non_hex (Data r'))" using l by simp
    show ?thesis
      unfolding decode_payload_take[OF l] decode_payload_take[OF l']
      using a by (simp add: mk_sample_def)
  qed
qed

lemma example_row_extended_take:
  "take 24 (re_sub_non_hex (Data example_row))
     = take 24 (re_sub_non_hex (Data example_row_extended))"
  by (simp add: example_row_def example_row_extended_def re_sub_non_hex_def py_def
      is_hex_char_def)

theorem decode_payload_ranges_witness:
  "take 24 (re_sub_non_hex (Data example_row))
     = take 24 (re_sub_non_hex (Data example_row_extended)) \<and>
   DeviceID example_row = DeviceID example_row_extended \<and>
   Timestamp example_row = Timestamp example_row_extended \<and>
   decode_payload example_row = decode_payload example_row_extended \<and>
   hd (decode_payload example_row) \<in> set (decode_payload example_row) \<and>
   Distance_mm (hd (decode_payload example_row)) \<le> 65535 \<and>
   Voltage_V (hd (decode_payload example_row)) \<le> 67 / 16"
proof -
  have m: "hd (decode_payload example_row) \<in> set (decode_payload example_row)"
    using decode_payload_nonempty(1)[OF example_row_long example_row_time] by simp
  have e: "DeviceID example_row = DeviceID example_row_extended"
     "Timestamp example_row = Timestamp example_row_extended"
    by (simp_all add: example_row_def example_row_extended_def)
  show ?thesis
    using m e example_row_extended_take
      decode_payload_ranges[of example_row example_row_extended]
    by blast
qed

section \<open>The test vector and the layout of the distances\<close>

lemma example_payload_decoded:
  assumes "Timestamp_min + Timedelta_minutes 8 \<le> t" "t \<le> Timestamp_max"
  shows
  "decode_payload \<lparr>Data = py ''64320064012C01F401900258'', DeviceID = d, Timestamp = t\<rparr> =
     [\<lparr>Timestamp_JST = t, Distance_mm = 100, Voltage_V = 9 / 4, Battery_Pct = 50,
       Sample_DeviceID = d\<rparr>,
      \<lparr>Timestamp_JST = t - Timedelta_minutes 2, Distance_mm = 300, Voltage_V = 9 / 4,
       Battery_Pct = 50, Sample_DeviceID = d\<rparr>,
      \<lparr>Timestamp_JST = t - Timedelta_minutes 4, Distance_mm = 500, Voltage_V = 9 / 4,
       Battery_Pct = 50, Sample_DeviceID = d\<rparr>,
      \<lparr>Timestamp_JST = t - Timedelta_minutes 6, Distance_mm = 400, Voltage_V = 9 / 4,
       Battery_Pct = 50, Sample_DeviceID = d\<rparr>,
      \<lparr>Timestamp_JST = t - Timedelta_minutes 8, Distance_mm = 600, Voltage_V = 9 / 4,
       Battery_Pct = 50, Sample_DeviceID = d\<rparr>]"
proof -
  have l: "24 \<le> length (re_sub_non_hex
             (Data \<lparr>Data = py ''64320064012C01F401900258'', DeviceID = d, Timestamp = t\<rparr>))"
    by (simp add: example_payload_chars) (simp add: py_def)
  have lo: "Timestamp_min + Timedelta_minutes 8
              \<le> Timestamp \<lparr>Data = py ''64320064012C01F401900258'', DeviceID = d, Timestamp = t\<rparr>"
    and hi: "Timestamp \<lparr>Data = py ''64320064012C01F401900258'', DeviceID = d, Timestamp = t\<rparr>
              \<le> Timestamp_max"
    using assms by simp_all
  have v: "byte_at (py ''64320064012C01F401900258'') 0 = 100"
    by (simp add: byte_at_def nibble_def py_def)
  show ?thesis
    unfolding decode_payload_eq[OF l lo hi] upt_0_5
    by (simp add: example_payload_chars mk_sample_def v voltage_of_100)
       (simp add: be16_at_def byte_at_def nibble_def py_def Timedelta_minutes_def)
qed

lemma four_minute_row_long: "24 \<le> length (re_sub_non_hex (Data four_minute_row))"
  by (simp add: four_minute_row_def example_payload_chars) (simp add: py_def)

lemma four_minute_row_time:
  "Timestamp four_minute_row = Timestamp_min + Timedelta_minutes 4"
  "Timestamp four_minute_row \<le> Timestamp_max"
  "Timestamp four_minute_row \<noteq> NaT" "Timestamp four_minute_row - Timedelta_minutes 8 < NaT"
  by (simp_all add: four_minute_row_def Timestamp_min_def Timestamp_max_def
      Timedelta_minutes_def NaT_def)

text \<open>
  Claim C7, as stated, fails. The row \<open>four_minute_row\<close> carries the payload
  \<open>64320064012C01F401900258\<close> and the instant four minutes after \<open>Timestamp.min\<close>. The
  subtraction of six minutes overflows, the exception is caught, and the row decodes to
  no sample: there are no distances 100, 300, 500, 400 and 600.
\<close>

theorem test_vector_near_min:
  "Data four_minute_row = py ''64320064012C01F401900258'' \<and>
   Timestamp four_minute_row = Timestamp_min + Timedelta_minutes 4 \<and>
   Timestamp four_minute_row \<le> Timestamp_max \<and>
   timestamp_sub (Timestamp four_minute_row) (Timedelta_minutes 6) = None \<and>
   decode_payload four_minute_row = [] \<and>
   map Distance_mm (decode_payload four_minute_row) \<noteq> [100, 300, 500, 400, 600]"
proof -
  have "timestamp_sub (Timestamp four_minute_row) (Timedelta_minutes 6) = None"
    by (simp add: four_minute_row_def timestamp_sub_def Timedelta_minutes_def NaT_def)
  moreover have "decode_payload four_minute_row = []"
    using four_minute_row_long four_minute_row_time(3,4) by (rule decode_payload_raises)
  moreover have "Data four_minute_row = py ''64320064012C01F401900258''"
    by (simp add: four_minute_row_def)
  ultimately show ?thesis using four_minute_row_time(1,2) by simp
qed

text \<open>
  Claim C7, amended. For a row with at least 24 normalized characters whose instant lies
  between \<open>Timestamp.min\<close> plus eight minutes and \<open>Timestamp.max\<close>, sample \<open>i\<close> (0 to 4)
  carries the instant of the row less \<open>2 i\<close> minutes and, as its distance, the big-endian
  unsigned 16-bit integer written at characters \<open>4 + 4 i\<close> to \<open>7 + 4 i\<close> of the normalized
  payload: the distances are read from characters 4 to 23, newest first. With such an
  instant the payload \<open>64320064012C01F401900258\<close> decodes to battery 50, voltage 2.25 and
  the distances 100, 300, 500, 400 and 600 at 0, 2, 4, 6 and 8 minutes before the instant
  of the row.
\<close>

theorem decode_payload_distances:
  "(24 \<le> length (re_sub_non_hex (Data r)) \<and>
    Timestamp_min + Timedelta_minutes 8 \<le> Timestamp r \<and> Timestamp r \<le> Timestamp_max \<longrightarrow>
      map (\<lambda>x. (Timestamp_JST x, Distance_mm x)) (decode_payload r)
        = map (\<lambda>i. (Timestamp r - Timedelta_minutes (2 * int i),
                      be16_at (re_sub_non_hex (Data r)) (4 + 4 * i))) [0..<5]) \<and>
   (Timestamp_min + Timedelta_minutes 8 \<le> t \<and> t \<le> Timestamp_max \<longrightarrow>
    decode_payload \<lparr>Data = py ''64320064012C01F401900258'', DeviceID = d, Timestamp = t\<rparr> =
     [\<lparr>Timestamp_JST = t, Distance_mm = 100, Voltage_V = 9 / 4, Battery_Pct = 50,
       Sample_DeviceID = d\<rparr>,
      \<lparr>Timestamp_JST = t - Timedelta_minutes 2, Distance_mm = 300, Voltage_V = 9 / 4,
       Battery_Pct = 50, Sample_DeviceID = d\<rparr>,
      \<lparr>Timestamp_JST = t - Timedelta_minutes 4, Distance_mm = 500, Voltage_V = 9 / 4,
       Battery_Pct = 50, Sample_DeviceID = d\<rparr>,
      \<lparr>Timestamp_JST = t - Timedelta_minutes 6, Distance_mm = 400, Voltage_V = 9 / 4,
       Battery_Pct = 50, Sample_DeviceID = d\<rparr>,
      \<lparr>Timestamp_JST = t - Timedelta_minutes 8, Distance_mm = 600, Voltage_V = 9 / 4,
       Battery_Pct = 50, Sample_DeviceID = d\<rparr>])"
proof (intro conjI impI)
  assume a: "24 \<le> length (re_sub_non_hex (Data r)) \<and>
    Timestamp_min + Timedelta_minutes 8 \<le> Timestamp r \<and> Timestamp r \<le> Timestamp_max"
  have eq: "decode_payload r =
           map (mk_sample (re_sub_non_hex (Data r)) r
                  (voltage_of (byte_at (re_sub_non_hex (Data r)) 0))
                  (byte_at (re_sub_non_hex (Data r)) 2))
               [0..<5]"
    using a by (intro decode_payload_eq) simp_all
  show "map (\<lambda>x. (Timestamp_JST x, Distance_mm x)) (decode_payload r)
        = map (\<lambda>i. (Timestamp r - Timedelta_minutes (2 * int i),
                      be16_at (re_sub_non_hex (Data r)) (4 + 4 * i))) [0..<5]"
    unfolding eq by (simp add: mk_sample_def mult.commute)
next
  assume "Timestamp_min + Timedelta_minutes 8 \<le> t \<and> t \<le> Timestamp_max"
  then show
    "decode_payload \<lparr>Data = py ''64320064012C01F401900258'', DeviceID = d, Timestamp = t\<rparr> =
     [\<lparr>Timestamp_JST = t, Distance_mm = 100, Voltage_V = 9 / 4, Battery_Pct = 50,
       Sample_DeviceID = d\<rparr>,
      \<lparr>Timestamp_JST = t - Timedelta_minutes 2, Distance_mm = 300, Voltage_V = 9 / 4,
       Battery_Pct = 50, Sample_DeviceID = d\<rparr>,
      \<lparr>Timestamp_JST = t - Timedelta_minutes 4, Distance_mm = 500, Voltage_V = 9 / 4,
       Battery_Pct = 50, Sample_DeviceID = d\<rparr>,
      \<lparr>Timestamp_JST = t - Timedelta_minutes 6, Distance_mm = 400, Voltage_V = 9 / 4,
       Battery_Pct = 50, Sample_DeviceID = d\<rparr>,
      \<lparr>Timestamp_JST = t - Timedelta_minutes 8, Distance_mm = 600, Voltage_V = 9 / 4,
       Battery_Pct = 50, Sample_DeviceID = d\<rparr>]"
    by (intro example_payload_decoded) simp_all
qed

theorem decode_payload_distances_witness:
  "24 \<le> length (re_sub_non_hex (Data example_row)) \<and>
   Timestamp_min + Timedelta_minutes 8 \<le> Timestamp example_row \<and>
   Timestamp example_row \<le> Timestamp_max \<and>
   map (\<lambda>x. (Timestamp_JST x, Distance_mm x)) (decode_payload example_row) =
     [(1700000000000000000, 100), (1699999880000000000, 300), (1699999760000000000, 500),
      (1699999640000000000, 400), (1699999520000000000, 600)] \<and>
   map Battery_Pct
     (decode_payload \<lparr>Data = py ''64320064012C01F401900258'', DeviceID = py ''1F06AD2'',
                      Timestamp = 1700000000000000000\<rparr>) = [50, 50, 50, 50, 50]"
proof -
  have h: "24 \<le> length (re_sub_non_hex (Data example_row)) \<and>
    Timestamp_min + Timedelta_minutes 8 \<le> Timestamp example_row \<and>
    Timestamp example_row \<le> Timestamp_max"
    using example_row_long example_row_time by simp
  have g: "Timestamp_min + Timedelta_minutes 8 \<le> (1700000000000000000::int) \<and>
    (1700000000000000000::int) \<le> Timestamp_max"
    by (simp add: Timestamp_min_def Timestamp_max_def Timedelta_minutes_def)
  have "map (\<lambda>i. (Timestamp example_row - Timedelta_minutes (2 * int i),
                      be16_at (re_sub_non_hex (Data example_row)) (4 + 4 * i))) [0..<5]
     = [(1700000000000000000, 100), (1699999880000000000, 300), (1699999760000000000, 500),
      (1699999640000000000, 400), (1699999520000000000, 600)]"
    unfolding upt_0_5
    by (simp add: example_row_def example_payload_chars Timedelta_minutes_def)
       (simp add: be16_at_def byte_at_def nibble_def py_def)
  moreover have "map (\<lambda>x. (Timestamp_JST x, Distance_mm x)) (decode_payload example_row)
        = map (\<lambda>i. (Timestamp example_row - Timedelta_minutes (2 * int i),
                      be16_at (re_sub_non_hex (Data example_row)) (4 + 4 * i))) [0..<5]"
    using h decode_payload_distances[of example_row] by blast
  moreover have "map Battery_Pct
     (decode_payload \<lparr>Data = py ''64320064012C01F401900258'', DeviceID = py ''1F06AD2'',
                      Timestamp = 1700000000000000000\<rparr>) = [50, 50, 50, 50, 50]"
    using g decode_payload_distances[of _ 1700000000000000000 "py ''1F06AD2''"] by simp
  ultimately show ?thesis using h by simp
qed

section \<open>Battery percentage and voltage\<close>

lemma full_battery_chars:
  "re_sub_non_hex (py ''C8FF0064012C01F401900258'') = py ''C8FF0064012C01F401900258''"
  by (simp add: re_sub_non_hex_def py_def is_hex_char_def)

lemma full_battery_row_long: "24 \<le> length (re_sub_non_hex (Data full_battery_row))"
  by (simp add: full_battery_row_def full_battery_chars) (simp add: py_def)

lemma full_battery_row_time:
  "Timestamp_min + Timedelta_minutes 8 \<le> Timestamp full_battery_row"
  "Timestamp full_battery_row \<le> Timestamp_max"
  by (simp_all add: full_battery_row_def Timestamp_min_def Timestamp_max_def
      Timedelta_minutes_def)

lemma full_battery_row_bytes:
  "byte_at (re_sub_non_hex (Data full_battery_row)) 0 = 200"
  "byte_at (re_sub_non_hex (Data full_battery_row)) 2 = 255"
  by (simp_all add: full_battery_row_def full_battery_chars)
     (simp_all add: byte_at_def nibble_def py_def)

text \<open>
  Claim C3, as stated, fails: the second byte is taken as it is. The payload
  \<open>C8FF0064012C01F401900258\<close> decodes to samples whose battery percentage is 255.
\<close>

theorem battery_over_100:
  "decode_payload full_battery_row \<noteq> [] \<and>
   Battery_Pct (hd (decode_payload full_battery_row)) = 255 \<and>
   \<not> Battery_Pct (hd (decode_payload full_battery_row)) \<le> 100"
  using decode_payload_nonempty[OF full_battery_row_long full_battery_row_time]
  by (simp add: mk_sample_def full_battery_row_bytes)

text \<open>
  Claim C3, amended. In every sample that \<open>decode_payload\<close> returns the battery percentage
  is the value of the second byte of the normalized payload, an integer from 0 to 255.
\<close>

theorem battery_is_second_byte:
  "\<forall>x\<in>set (decode_payload r).
     Battery_Pct x = byte_at (re_sub_non_hex (Data r)) 2 \<and>
     0 \<le> Battery_Pct x \<and> Battery_Pct x \<le> 255"
proof
  define s where "s = re_sub_non_hex (Data r)"
  have hex: "\<forall>c\<in>set s. is_hex_char c"
    by (simp add: s_def re_sub_non_hex_chars)
  fix x assume x: "x \<in> set (decode_payload r)"
  have long: "24 \<le> length s"
    using decode_payload_member(1)[OF x] by (simp add: s_def)
  have "Battery_Pct x = byte_at s 2"
    using decode_payload_member(2)[OF x] unfolding s_def by (auto simp: mk_sample_def)
  moreover have "0 \<le> byte_at s 2 \<and> byte_at s 2 \<le> 255"
    using long by (intro byte_at_range[OF _ hex]) simp
  ultimately show "Battery_Pct x = byte_at (re_sub_non_hex (Data r)) 2 \<and>
     0 \<le> Battery_Pct x \<and> Battery_Pct x \<le> 255"
    by (simp add: s_def)
qed

theorem battery_is_second_byte_witness:
  "hd (decode_payload example_row) \<in> set (decode_payload example_row) \<and>
   Battery_Pct (hd (decode_payload example_row)) = 50"
proof -
  have m: "hd (decode_payload example_row) \<in> set (decode_payload example_row)"
    using decode_payload_nonempty(1)[OF example_row_long example_row_time] by simp
  have "byte_at (re_sub_non_hex (Data example_row)) 2 = 50"
    by (simp add: example_row_def example_payload_chars)
       (simp add: byte_at_def nibble_def py_def)
  then show ?thesis using m battery_is_second_byte[of example_row] by auto
qed

text \<open>
  Claim C8. In every sample the voltage is the float \<open>v * 0.0125 + 1.0\<close> of the first
  payload byte \<open>v\<close>, computed in floating point as Python does; it differs from the exact
  line \<open>v / 80 + 1\<close> by at most \<open>1 / 2 ^ 50\<close>, the rounding of the two operations and
  of the literal. The byte value 0 gives exactly 1.0 and the byte value 200 exactly 3.5.
\<close>

theorem voltage_decode:
  "(\<forall>x\<in>set (decode_payload r).
      Voltage_V x
        = float_add (float_mul (of_int (byte_at (re_sub_non_hex (Data r)) 0)) lit_0_0125) 1 \<and>
      \<bar>Voltage_V x - (of_int (byte_at (re_sub_non_hex (Data r)) 0) / 80 + 1)\<bar> \<le> 1 / 2 ^ 50) \<and>
   float_add (float_mul (of_int 0) lit_0_0125) 1 = 1 \<and>
   float_add (float_mul (of_int 200) lit_0_0125) 1 = 7 / 2"
proof (intro conjI ballI)
  define s where "s = re_sub_non_hex (Data r)"
  have hex: "\<forall>c\<in>set s. is_hex_char c"
    by (simp add: s_def re_sub_non_hex_chars)
  fix x assume x: "x \<in> set (decode_payload r)"
  have long: "24 \<le> length s"
    using decode_payload_member(1)[OF x] by (simp add: s_def)
  have v: "Voltage_V x = voltage_of (byte_at s 0)"
    using decode_payload_member(2)[OF x] unfolding s_def by (auto simp: mk_sample_def)
  then show "Voltage_V x
        = float_add (float_mul (of_int (byte_at (re_sub_non_hex (Data r)) 0)) lit_0_0125) 1"
    by (simp add: voltage_of_def s_def)
  have "0 \<le> byte_at s 0 \<and> byte_at s 0 \<le> 255"
    using long by (intro byte_at_range[OF _ hex]) simp
  then have "\<bar>voltage_of (byte_at s 0) - (of_int (byte_at s 0) / 80 + 1)\<bar> \<le> 1 / 2 ^ 50"
    by (intro voltage_of_near_line) simp_all
  then show "\<bar>Voltage_V x - (of_int (byte_at (re_sub_non_hex (Data r)) 0) / 80 + 1)\<bar> \<le> 1 / 2 ^ 50"
    by (simp only: v s_def)
next
  show "float_add (float_mul (of_int 0) lit_0_0125) 1 = 1"
    using voltage_of_0 by (simp only: voltage_of_def)
  show "float_add (float_mul (of_int 200) lit_0_0125) 1 = 7 / 2"
    using voltage_of_200 by (simp only: voltage_of_def)
qed

theorem voltage_decode_witness:
  "hd (decode_payload full_battery_row) \<in> set (decode_payload full_battery_row) \<and>
   Voltage_V (hd (decode_payload full_battery_row)) = 7 / 2"
proof -
  have m: "hd (decode_payload full_battery_row) \<in> set (decode_payload full_battery_row)"
    using decode_payload_nonempty(1)[OF full_battery_row_long full_battery_row_time] by simp
  have "Voltage_V (hd (decode_payload full_battery_row))
        = float_add (float_mul (of_int (byte_at (re_sub_non_hex (Data full_battery_row)) 0))
            lit_0_0125) 1"
    using m voltage_decode[of full_battery_row] by blast
  also have "\<dots> = float_add (float_mul (of_int 200) lit_0_0125) 1"
    by (simp only: full_battery_row_bytes)
  also have "\<dots> = 7 / 2" using voltage_decode[of full_battery_row] by blast
  finally show ?thesis using m by simp
qed


section \<open>The row parser: cleaning the fields\<close>

lemma starts_with_iff: "starts_with needle hay \<longleftrightarrow> (\<exists>q. hay = needle @ q)"
  by (induction needle hay rule: starts_with.induct) auto

lemma str_in_iff: "str_in needle hay \<longleftrightarrow> (\<exists>p q. hay = p @ needle @ q)"
proof (induction hay)
  case Nil
  then show ?case by auto
next
  case (Cons y ys)
  have "(\<exists>p q. y # ys = p @ needle @ q)
        \<longleftrightarrow> (\<exists>q. y # ys = needle @ q) \<or> (\<exists>p q. ys = p @ needle @ q)"
  proof
    assume "\<exists>p q. y # ys = p @ needle @ q"
    then obtain p q where pq: "y # ys = p @ needle @ q" by blast
    show "(\<exists>q. y # ys = needle @ q) \<or> (\<exists>p q. ys = p @ needle @ q)"
    proof (cases p)
      case Nil
      with pq show ?thesis by auto
    next
      case (Cons a p')
      with pq have "ys = p' @ needle @ q" by simp
      then show ?thesis by blast
    qed
  next
    assume "(\<exists>q. y # ys = needle @ q) \<or> (\<exists>p q. ys = p @ needle @ q)"
    then show "\<exists>p q. y # ys = p @ needle @ q"
    proof
      assume "\<exists>q. y # ys = needle @ q"
      then obtain q where "y # ys = [] @ needle @ q" by auto
      then show ?thesis by blast
    next
      assume "\<exists>p q. ys = p @ needle @ q"
      then obtain p q where "y # ys = (y # p) @ needle @ q" by auto
      then show ?thesis by blast
    qed
  qed
  then show ?case using Cons.IH by (simp add: starts_with_iff)
qed

lemma rev_dropWhile_takeWhile:
  "rev (dropWhile P (rev xs)) @ rev (takeWhile P (rev xs)) = xs"
proof -
  have "rev (takeWhile P (rev xs) @ dropWhile P (rev xs)) = rev (rev xs)"
    by (simp only: takeWhile_dropWhile_id)
  then show ?thesis by (simp only: rev_append rev_rev_ident)
qed

lemma strip_decomp:
  "\<exists>pre post. p = pre @ strip p @ post \<and> (\<forall>c\<in>set pre. is_space c) \<and> (\<forall>c\<in>set post. is_space c)"
proof -
  define mid where "mid = dropWhile is_space p"
  have 1: "p = takeWhile is_space p @ mid" by (simp add: mid_def)
  have 2: "mid = strip p @ rev (takeWhile is_space (rev mid))"
    using rev_dropWhile_takeWhile[of is_space mid] by (simp add: strip_def mid_def)
  have "\<forall>c\<in>set (takeWhile is_space p). is_space c"
       "\<forall>c\<in>set (rev (takeWhile is_space (rev mid))). is_space c"
    by (auto dest: set_takeWhileD)
  moreover have "p = takeWhile is_space p @ strip p @ rev (takeWhile is_space (rev mid))"
    using 1 2 by simp
  ultimately show ?thesis by blast
qed

lemma strip_ends:
  assumes "strip p \<noteq> []"
  shows "\<not> is_space (hd (strip p)) \<and> \<not> is_space (last (strip p))"
proof -
  define mid where "mid = dropWhile is_space p"
  have s: "strip p = rev (dropWhile is_space (rev mid))" by (simp add: strip_def mid_def)
  have ne: "dropWhile is_space (rev mid) \<noteq> []" using assms s by simp
  then have l: "\<not> is_space (last (strip p))"
    using hd_dropWhile[OF ne] by (simp add: s last_rev)
  have m: "mid = strip p @ rev (takeWhile is_space (rev mid))"
    using rev_dropWhile_takeWhile[of is_space mid] by (simp add: s)
  then have "mid \<noteq> []" using assms by auto
  then have "\<not> is_space (hd mid)" unfolding mid_def by (rule hd_dropWhile)
  moreover have "hd mid = hd (strip p)" using m assms by (metis hd_append2)
  ultimately show ?thesis using l by simp
qed

lemma clean_part_filter:
  "clean_part p = filter (\<lambda>c. c \<noteq> 34 \<and> c \<noteq> 39) (strip p)"
  by (auto simp: clean_part_def replace_char_def intro: filter_cong)

text \<open>
  What the cleaning step does achieve: the cleaned field is the stripped field without
  its quote characters, and it holds no quote character.
\<close>

lemma clean_part_no_quote: "34 \<notin> set (clean_part p) \<and> 39 \<notin> set (clean_part p)"
  by (simp add: clean_part_filter)

text \<open>
  Claim C4. Every cleaned field should be the field without its surrounding whitespace
  and without quote characters, so that no cleaned field keeps whitespace at either end;
  the comment above the cleaning step says as much (quotes removed, extra whitespace
  deleted). The code misses this: it strips the whitespace before it removes the quotes.
  The first field of the line \<open>" a";b;c;d\<close> (quote, space, \<open>a\<close>, quote) is cleaned to a
  space followed by \<open>a\<close>, which begins with whitespace; removing the quotes first and
  stripping afterwards gives \<open>a\<close>.
\<close>

theorem quoted_whitespace_kept:
  "clean_parts_of (strip ([34, 32, 97, 34] @ py '';b;c;d''))
     = [[32, 97], py ''b'', py ''c'', py ''d''] \<and>
   clean_part [34, 32, 97, 34] = [32, 97] \<and>
   is_space (hd (clean_part [34, 32, 97, 34])) \<and>
   strip (replace_char 39 (replace_char 34 [34, 32, 97, 34])) = [97]"
  by (simp add: clean_parts_of_def clean_part_def replace_char_def strip_def py_def is_space_def)

section \<open>The row parser: which lines become rows\<close>

lemma load_lines_eq:
  "load_lines lines parsed_rows = parsed_rows @ List.map_filter parse_line lines"
  by (induction lines arbitrary: parsed_rows) (auto split: option.splits)

lemma clean_parts_of_empty: "length (clean_parts_of []) = 1"
  by (simp add: clean_parts_of_def)

text \<open>
  Claim C5. Among the lines with at least four cleaned fields, a line is passed over
  exactly when its first field contains \<open>Data\<close> and its last field contains \<open>Timestamp\<close>;
  every other such line becomes the row made of its first, second and last fields. Here
  \<open>str_in\<close> is containment as a contiguous piece, and \<open>load_data\<close> keeps, in order, the
  rows of the lines that are not passed over.
\<close>

theorem header_detection:
  "(4 \<le> length (clean_parts_of (strip raw)) \<longrightarrow>
      (parse_line raw = None \<longleftrightarrow>
         str_in (py ''Data'') (clean_parts_of (strip raw) ! 0) \<and>
         str_in (py ''Timestamp'') (last (clean_parts_of (strip raw)))) \<and>
      (parse_line raw \<noteq> None \<longrightarrow>
         parse_line raw = Some (clean_parts_of (strip raw) ! 0, clean_parts_of (strip raw) ! 1,
                                last (clean_parts_of (strip raw))))) \<and>
   (str_in needle hay \<longleftrightarrow> (\<exists>p q. hay = p @ needle @ q)) \<and>
   load_data (Some lines) = List.map_filter parse_line lines"
proof (intro conjI impI)
  assume l: "4 \<le> length (clean_parts_of (strip raw))"
  then have ne: "strip raw \<noteq> []" using clean_parts_of_empty by auto
  show "parse_line raw = None \<longleftrightarrow>
         str_in (py ''Data'') (clean_parts_of (strip raw) ! 0) \<and>
         str_in (py ''Timestamp'') (last (clean_parts_of (strip raw)))"
    using l ne by (simp add: parse_line_def Let_def)
  assume "parse_line raw \<noteq> None"
  then show "parse_line raw = Some (clean_parts_of (strip raw) ! 0, clean_parts_of (strip raw) ! 1,
                                last (clean_parts_of (strip raw)))"
    using l ne by (simp add: parse_line_def Let_def split: if_splits)
next
  show "str_in needle hay \<longleftrightarrow> (\<exists>p q. hay = p @ needle @ q)" by (rule str_in_iff)
  show "load_data (Some lines) = List.map_filter parse_line lines"
    by (simp add: load_data_def load_lines_eq)
qed

lemma header_line_parts:
  "clean_parts_of (strip header_line)
     = [py ''Data'', py ''Device ID'', py ''Sequence number'', py ''Timestamp'']"
  by (simp add: header_line_def clean_parts_of_def clean_part_def replace_char_def strip_def
      py_def is_space_def)

lemma data_line_parts:
  "clean_parts_of (strip data_line)
     = [py ''64320064012C01F401900258'', py ''1F06AD2'', py ''12'', py ''2024-01-01 00:00:00'']"
  by (simp add: data_line_def clean_parts_of_def clean_part_def replace_char_def strip_def
      py_def is_space_def)

theorem header_detection_witness:
  "4 \<le> length (clean_parts_of (strip header_line)) \<and> parse_line header_line = None \<and>
   4 \<le> length (clean_parts_of (strip data_line)) \<and> parse_line data_line \<noteq> None \<and>
   parse_line data_line
     = Some (py ''64320064012C01F401900258'', py ''1F06AD2'', py ''2024-01-01 00:00:00'')"
proof -
  have h: "4 \<le> length (clean_parts_of (strip header_line))"
    by (simp add: header_line_parts)
  have hs: "str_in (py ''Data'') (clean_parts_of (strip header_line) ! 0) \<and>
         str_in (py ''Timestamp'') (last (clean_parts_of (strip header_line)))"
    by (simp add: header_line_parts) (simp add: py_def)
  have 1: "parse_line header_line = None"
    using h hs header_detection[of header_line] by blast
  have d: "4 \<le> length (clean_parts_of (strip data_line))"
    by (simp add: data_line_parts)
  have ds: "\<not> str_in (py ''Data'') (clean_parts_of (strip data_line) ! 0)"
    by (simp add: data_line_parts) (simp add: py_def)
  have 2: "parse_line data_line \<noteq> None"
    using d ds header_detection[of data_line] by blast
  then have "parse_line data_line
     = Some (clean_parts_of (strip data_line) ! 0, clean_parts_of (strip data_line) ! 1,
             last (clean_parts_of (strip data_line)))"
    using d header_detection[of data_line] by blast
  then show ?thesis using h d 1 2 by (simp add: data_line_parts)
qed

end
